theory Spec2Isabelle
  imports Complex_Main "HOL-Library.Word" "HOL-Library.Signed_Division"
begin

section \<open>Values a Go call can produce\<close>

text \<open>
  A Go function of this package either returns or panics. The error values that
  \<^verbatim>\<open>Parse\<close> can hand back are the sentinel errors of \<^verbatim>\<open>io\<close> and \<^verbatim>\<open>bufio\<close>, an error of
  the reader, the message built with \<^verbatim>\<open>fmt.Errorf\<close>, and the \<^verbatim>\<open>*strconv.NumError\<close> of a
  failed conversion (function name, offending text, cause).
\<close>

datatype errkind = ErrSyntax | ErrRange

datatype error =
    EOF
  | ErrTooLong
  | ReadError string
  | Errorf string
  | NumError string string errkind

datatype panic = IndexOutOfRange nat nat | DivideByZero

datatype 'a result = Return 'a | Panic panic

section \<open>The line scanner\<close>

text \<open>
  An \<^verbatim>\<open>io.Reader\<close> is modelled by the bytes it delivers and the error of the read that
  follows the last byte (\<open>EOF\<close> for a stream that ends cleanly). \<^verbatim>\<open>Parse\<close> uses a
  \<^verbatim>\<open>bufio.Scanner\<close> as \<^verbatim>\<open>NewScanner\<close> makes it, with the split function \<^verbatim>\<open>ScanLines\<close> and
  the default buffer: a token is the text up to the next newline with one trailing
  carriage return dropped; the last line needs no newline; the buffer grows to
  \<^verbatim>\<open>MaxScanTokenSize\<close> bytes and has to hold a line with its newline, so a line of that many
  bytes or more stops the scan with \<^verbatim>\<open>ErrTooLong\<close>. After the last token \<open>Scan\<close> returns
  false and keeps the error of the reader; \<open>Err\<close> hides it when it is \<open>EOF\<close>. The reader is
  taken to report its final error in a read of its own, after the data, as files, pipes
  and \<^verbatim>\<open>strings.Reader\<close> do.

  The state of the scanner is what is left of the stream (\<open>src\<close>), the error that the
  reader reports at its end (\<open>src_err\<close>), and the error the scanner has met (\<open>err\<close>).
\<close>

type_synonym Reader = "string \<times> error"

definition MaxScanTokenSize :: nat where
  "MaxScanTokenSize = 64 * 1024"

fun IndexByte :: "string \<Rightarrow> char \<Rightarrow> nat option" where
  "IndexByte [] c = None"
| "IndexByte (x # xs) c = (if x = c then Some 0 else map_option Suc (IndexByte xs c))"

definition dropCR :: "string \<Rightarrow> string" where
  "dropCR data = (if data \<noteq> [] \<and> last data = CHR 0x0D then butlast data else data)"

record Scanner =
  src :: string
  src_err :: error
  err :: "error option"

definition NewScanner :: "Reader \<Rightarrow> Scanner" where
  "NewScanner r = \<lparr>src = fst r, src_err = snd r, err = None\<rparr>"

definition Scan :: "Scanner \<Rightarrow> string option \<times> Scanner" where
  "Scan s =
    (case err s of
       Some e \<Rightarrow> (None, s)
     | None \<Rightarrow>
        (case IndexByte (src s) (CHR 0x0A) of
           Some i \<Rightarrow>
             if MaxScanTokenSize \<le> i then (None, s\<lparr>err := Some ErrTooLong\<rparr>)
             else (Some (dropCR (take i (src s))), s\<lparr>src := drop (i + 1) (src s)\<rparr>)
         | None \<Rightarrow>
             if MaxScanTokenSize \<le> length (src s) then (None, s\<lparr>err := Some ErrTooLong\<rparr>)
             else if src s = [] then (None, s\<lparr>err := Some (src_err s)\<rparr>)
             else (Some (dropCR (src s)), s\<lparr>src := []\<rparr>)))"

definition Err :: "Scanner \<Rightarrow> error option" where
  "Err s = (if err s = Some EOF then None else err s)"

section \<open>Strings and regular expressions\<close>

definition HasPrefix :: "string \<Rightarrow> string \<Rightarrow> bool" where
  "HasPrefix s pre = (length pre \<le> length s \<and> take (length pre) s = pre)"

text \<open>\<^verbatim>\<open>strings.ReplaceAll\<close> for an old string of one byte, the only use the package makes of it.\<close>

definition ReplaceAll :: "string \<Rightarrow> char \<Rightarrow> string \<Rightarrow> string" where
  "ReplaceAll s old new = concat (map (\<lambda>c. if c = old then new else [c]) s)"

text \<open>
  The two patterns of the package are sequences of literal text and capture groups
  \<^verbatim>\<open>([...]+)\<close> over a character class, anchored at both ends of the text. A \<open>Regexp\<close> is
  that sequence; a class is the list of its members. Matching follows the leftmost-first
  rule of \<^verbatim>\<open>regexp\<close>: a group is greedy and gives characters back one at a time until the
  rest of the pattern matches.
\<close>

datatype node = Lit string | Group string

type_synonym Regexp = "node list"

fun give_back :: "(string \<Rightarrow> string list option) \<Rightarrow> string \<Rightarrow> nat \<Rightarrow> string list option" where
  "give_back k s 0 = None"
| "give_back k s (Suc n) =
    (case k (drop (Suc n) s) of
       Some caps \<Rightarrow> Some (take (Suc n) s # caps)
     | None \<Rightarrow> give_back k s n)"

primrec match_nodes :: "Regexp \<Rightarrow> string \<Rightarrow> string list option" where
  "match_nodes [] s = (if s = [] then Some [] else None)"
| "match_nodes (nd # re) s =
    (case nd of
       Lit l \<Rightarrow> if HasPrefix s l then match_nodes re (drop (length l) s) else None
     | Group cls \<Rightarrow> give_back (match_nodes re) s (length (takeWhile (\<lambda>c. c \<in> set cls) s)))"

definition FindStringSubmatch :: "Regexp \<Rightarrow> string \<Rightarrow> string list" where
  "FindStringSubmatch re s = (case match_nodes re s of None \<Rightarrow> [] | Some caps \<Rightarrow> s # caps)"

definition statsTransferRe :: Regexp where
  "statsTransferRe =
    [Lit ''sent '', Group ''0123456789,'', Lit '' bytes  received '', Group ''0123456789,'',
     Lit '' bytes  '', Group ''0123456789,.'', Lit '' bytes/sec'']"

definition statsSizeRe :: Regexp where
  "statsSizeRe =
    [Lit ''total size is '', Group ''0123456789,'', Lit ''  speedup is '', Group ''0123456789,.'']"

text \<open>The classes of the capture groups of a pattern, in order.\<close>

fun group_classes :: "Regexp \<Rightarrow> string list" where
  "group_classes [] = []"
| "group_classes (Lit l # re) = group_classes re"
| "group_classes (Group cls # re) = cls # group_classes re"

section \<open>Number conversion\<close>

text \<open>
  \<^verbatim>\<open>strconv.ParseInt(s, 0, 64)\<close> and \<^verbatim>\<open>strconv.ParseFloat(s, 64)\<close>, on the texts the
  package passes to them: what is left of a capture over \<^verbatim>\<open>[0-9,]\<close> or \<^verbatim>\<open>[0-9,.]\<close> once
  the commas are removed, that is digits and, for the rate, points (lemmas
  \<open>transfer_captures\<close> and \<open>size_captures\<close> below). Signs, base prefixes with a letter,
  underscores and exponents cannot occur in such a text; here every byte other than a
  digit (or a point, for the rate) is a syntax error.

  With base 0 the base follows from the text: a leading \<^verbatim>\<open>0\<close> selects base 8 and is
  dropped, every other text is base 10. The digit loop is the one of \<^verbatim>\<open>ParseUint\<close>, on
  \<^verbatim>\<open>uint64\<close> with the wrap-around of the addition written out.
\<close>

definition is_digit :: "char \<Rightarrow> bool" where
  "is_digit c = (of_char (CHR ''0'') \<le> (of_char c :: nat) \<and> (of_char c :: nat) \<le> of_char (CHR ''9''))"

definition digit_val :: "char \<Rightarrow> nat" where
  "digit_val c = of_char c - of_char (CHR ''0'')"

definition maxUint64 :: nat where
  "maxUint64 = 2 ^ 64 - 1"

fun digits_loop :: "nat \<Rightarrow> nat \<Rightarrow> string \<Rightarrow> errkind + nat" where
  "digits_loop base n [] = Inr n"
| "digits_loop base n (c # cs) =
    (if \<not> is_digit c then Inl ErrSyntax
     else if base \<le> digit_val c then Inl ErrSyntax
     else if maxUint64 div base + 1 \<le> n then Inl ErrRange
     else let n0 = n * base; n1 = (n0 + digit_val c) mod 2 ^ 64
          in if n1 < n0 \<or> maxUint64 < n1 then Inl ErrRange else digits_loop base n1 cs)"

definition ParseUint :: "string \<Rightarrow> errkind + nat" where
  "ParseUint s =
    (if s = [] then Inl ErrSyntax
     else if hd s = CHR ''0'' then digits_loop 8 0 (tl s)
     else digits_loop 10 0 s)"

type_synonym int64 = "64 word"

definition ParseInt :: "string \<Rightarrow> error + int64" where
  "ParseInt s =
    (if s = [] then Inl (NumError ''ParseInt'' s ErrSyntax)
     else case ParseUint s of
        Inl k \<Rightarrow> Inl (NumError ''ParseInt'' s k)
      | Inr un \<Rightarrow>
          if 2 ^ 63 \<le> un then Inl (NumError ''ParseInt'' s ErrRange)
          else Inr (word_of_nat un))"

text \<open>
  The base-10 value of a text of digits, to compare \<open>ParseInt\<close> with.
\<close>

definition decimal :: "string \<Rightarrow> nat" where
  "decimal s = foldl (\<lambda>n c. n * 10 + digit_val c) 0 s"

text \<open>
  A \<^verbatim>\<open>float64\<close> that is finite is represented by its exact value, a rational number;
  infinities and NaN never reach a record (\<^verbatim>\<open>ParseFloat\<close> reports an infinite result as a
  range error). \<open>nearest_float64 a b\<close> is the double nearest to \<open>a / b\<close>, ties to the even
  mantissa, with 53 bits of mantissa and the least exponent \<open>-1074\<close>; the largest
  exponent is checked by the caller.
\<close>

type_synonym float64 = rat

fun bit_len :: "nat \<Rightarrow> nat" where
  "bit_len n = (if n = 0 then 0 else Suc (bit_len (n div 2)))"

declare bit_len.simps [simp del]

definition round_even :: "nat \<Rightarrow> nat \<Rightarrow> nat" where
  "round_even a b =
    (let q = a div b; r = a mod b
     in if 2 * r < b then q
        else if b < 2 * r then q + 1
        else if even q then q else q + 1)"

definition scale2 :: "nat \<Rightarrow> int \<Rightarrow> rat" where
  "scale2 m e = (if 0 \<le> e then of_nat (m * 2 ^ nat e) else of_nat m / of_nat (2 ^ nat (- e)))"

definition binary_exponent :: "nat \<Rightarrow> nat \<Rightarrow> int" where
  "binary_exponent a b =
    (let t = int (bit_len a) - int (bit_len b)
     in if (if 0 \<le> t then b * 2 ^ nat t \<le> a else b \<le> a * 2 ^ nat (- t)) then t else t - 1)"

definition nearest_float64 :: "nat \<Rightarrow> nat \<Rightarrow> float64" where
  "nearest_float64 a b =
    (if a = 0 then 0
     else let e = max (binary_exponent a b - 52) (- 1074);
              m = (if 0 \<le> e then round_even a (b * 2 ^ nat e) else round_even (a * 2 ^ nat (- e)) b)
          in scale2 m e)"

fun readFloat :: "string \<Rightarrow> bool \<Rightarrow> bool \<Rightarrow> nat \<Rightarrow> nat \<Rightarrow> (nat \<times> nat) option" where
  "readFloat [] sawdot sawdigits mantissa nfrac = (if sawdigits then Some (mantissa, nfrac) else None)"
| "readFloat (c # cs) sawdot sawdigits mantissa nfrac =
    (if c = CHR ''.'' then
       (if sawdot then None else readFloat cs True sawdigits mantissa nfrac)
     else if is_digit c then
       readFloat cs sawdot True (mantissa * 10 + digit_val c) (if sawdot then nfrac + 1 else nfrac)
     else None)"

definition ParseFloat :: "string \<Rightarrow> error + float64" where
  "ParseFloat s =
    (case readFloat s False False 0 0 of
       None \<Rightarrow> Inl (NumError ''ParseFloat'' s ErrSyntax)
     | Some (mantissa, nfrac) \<Rightarrow>
         let f = nearest_float64 mantissa (10 ^ nfrac)
         in if 2 ^ 1024 \<le> f then Inl (NumError ''ParseFloat'' s ErrRange) else Inr f)"

definition float64_of_int64 :: "int64 \<Rightarrow> float64" where
  "float64_of_int64 x =
    (if 0 \<le> sint x then nearest_float64 (nat (sint x)) 1
     else - nearest_float64 (nat (- sint x)) 1)"

section \<open>The package\<close>

record Stats =
  Found :: bool
  TotalWritten :: int64
  TotalRead :: int64
  BytesPerSec :: float64
  TotalSize :: int64

text \<open>The zero value \<^verbatim>\<open>Stats{}\<close>.\<close>

definition Stats_zero :: Stats where
  "Stats_zero = \<lparr>Found = False, TotalWritten = 0, TotalRead = 0, BytesPerSec = 0, TotalSize = 0\<rparr>"

text \<open>
  Go's \<^verbatim>\<open>/\<close> on \<^verbatim>\<open>int64\<close>: a zero divisor panics, the quotient is truncated towards zero
  and wraps (only for the least value divided by \<open>-1\<close>); \<^verbatim>\<open>+\<close> wraps as well.
\<close>

definition int64_quo :: "int64 \<Rightarrow> int64 \<Rightarrow> int64 result" where
  "int64_quo a b = (if b = 0 then Panic DivideByZero else Return (word_of_int (sint a sdiv sint b)))"

definition Speedup :: "Stats \<Rightarrow> float64 result" where
  "Speedup p =
    (case int64_quo (TotalSize p) (TotalWritten p + TotalRead p) of
       Panic x \<Rightarrow> Panic x
     | Return q \<Rightarrow> Return (float64_of_int64 q))"

text \<open>An index expression \<^verbatim>\<open>matches[i]\<close>: out of range it panics.\<close>

definition index :: "'a list \<Rightarrow> nat \<Rightarrow> panic + 'a" where
  "index xs i = (if i < length xs then Inr (xs ! i) else Inl (IndexOutOfRange i (length xs)))"

text \<open>
  The body of the loop of \<^verbatim>\<open>Parse\<close> for one line: \<open>Inl\<close> is the way the call of \<^verbatim>\<open>Parse\<close>
  ends there (a return of the pair \<^verbatim>\<open>(*Stats, error)\<close> or a panic), \<open>Inr\<close> the record the
  loop goes on with.
\<close>

type_synonym Parse_result = "(Stats option \<times> error option) result"

definition sent_branch :: "Stats \<Rightarrow> string \<Rightarrow> Parse_result + Stats" where
  "sent_branch p line =
    (let matches = FindStringSubmatch statsTransferRe line in
     if length matches = 0 then
       Inl (Return (None, Some (Errorf
         ''could not parse rsync 'sent' line; try starting rsync with LC_ALL=C.UTF-8'')))
     else
       (let p = p\<lparr>Found := True\<rparr> in
        (case index matches 1 of
           Inl x \<Rightarrow> Inl (Panic x)
         | Inr m1 \<Rightarrow>
        (case ParseInt (ReplaceAll m1 (CHR '','') []) of
           Inl e \<Rightarrow> Inl (Return (None, Some e))
         | Inr w \<Rightarrow>
        (let p = p\<lparr>TotalWritten := w\<rparr> in
        (case index matches 2 of
           Inl x \<Rightarrow> Inl (Panic x)
         | Inr m2 \<Rightarrow>
        (case ParseInt (ReplaceAll m2 (CHR '','') []) of
           Inl e \<Rightarrow> Inl (Return (None, Some e))
         | Inr r \<Rightarrow>
        (let p = p\<lparr>TotalRead := r\<rparr> in
        (case index matches 3 of
           Inl x \<Rightarrow> Inl (Panic x)
         | Inr m3 \<Rightarrow>
        (case ParseFloat (ReplaceAll m3 (CHR '','') []) of
           Inl e \<Rightarrow> Inl (Return (None, Some e))
         | Inr b \<Rightarrow> Inr (p\<lparr>BytesPerSec := b\<rparr>)))))))))))"

definition size_branch :: "Stats \<Rightarrow> string \<Rightarrow> Parse_result + Stats" where
  "size_branch p line =
    (let matches = FindStringSubmatch statsSizeRe line;
         p = p\<lparr>Found := True\<rparr> in
     (case index matches 1 of
        Inl x \<Rightarrow> Inl (Panic x)
      | Inr m1 \<Rightarrow>
     (case ParseInt (ReplaceAll m1 (CHR '','') []) of
        Inl e \<Rightarrow> Inl (Return (None, Some e))
      | Inr z \<Rightarrow> Inr (p\<lparr>TotalSize := z\<rparr>))))"

definition parse_line :: "Stats \<Rightarrow> string \<Rightarrow> Parse_result + Stats" where
  "parse_line p line =
    (if HasPrefix line ''sent '' then sent_branch p line
     else if HasPrefix line ''total size is '' then size_branch p line
     else Inr p)"

text \<open>The statements after the loop: \<^verbatim>\<open>scan.Err()\<close> decides between the two returns.\<close>

definition after_loop :: "Stats \<Rightarrow> Scanner \<Rightarrow> Parse_result" where
  "after_loop p s =
    (case Err s of
       Some e \<Rightarrow> if e = EOF then Return (Some p, None) else Return (None, Some e)
     | None \<Rightarrow> Return (Some p, None))"

function scan_loop :: "Stats \<Rightarrow> Scanner \<Rightarrow> Parse_result" where
  "scan_loop p s =
    (case Scan s of
       (Some line, s') \<Rightarrow>
         (case parse_line p line of Inl res \<Rightarrow> res | Inr p' \<Rightarrow> scan_loop p' s')
     | (None, s') \<Rightarrow> after_loop p s')"
  by pat_completeness auto
termination
proof (relation "measure (\<lambda>(p, s). length (src s))")
  show "wf (measure (\<lambda>(p, s). length (src s)))"
    by simp
next
  fix p :: Stats and s x1 x2 line p'
  assume "(x1, x2) = Scan s" and "x1 = Some line"
  then have sc: "Scan s = (Some line, x2)"
    by simp
  have "length (src x2) < length (src s)"
  proof (cases "src s")
    case Nil
    with sc show ?thesis
      by (simp add: Scan_def MaxScanTokenSize_def split: option.splits)
  next
    case (Cons c cs)
    with sc show ?thesis
      by (auto simp: Scan_def split: option.splits if_splits)
  qed
  then show "((p', x2), (p, s)) \<in> measure (\<lambda>(p, s). length (src s))"
    by simp
qed

declare scan_loop.simps [simp del]

definition Parse :: "Reader \<Rightarrow> Parse_result" where
  "Parse r = scan_loop Stats_zero (NewScanner r)"

section \<open>The lines of an input\<close>

text \<open>
  Two descriptions used to state properties of \<open>Parse\<close>. \<open>tokens s\<close> are the lines that
  successive calls of \<open>Scan\<close> yield until it returns false, with the scanner as that last
  call leaves it. \<open>run p ls\<close> is the loop body applied to the lines \<open>ls\<close> in order,
  stopping at the first line that ends the call.
\<close>

function tokens :: "Scanner \<Rightarrow> string list \<times> Scanner" where
  "tokens s =
    (case Scan s of
       (Some line, s') \<Rightarrow> (case tokens s' of (ls, t) \<Rightarrow> (line # ls, t))
     | (None, s') \<Rightarrow> ([], s'))"
  by pat_completeness auto
termination
proof (relation "measure (\<lambda>s. length (src s))")
  show "wf (measure (\<lambda>s. length (src s)))"
    by simp
next
  fix s x1 x2 line
  assume "(x1, x2) = Scan s" and "x1 = Some line"
  then have sc: "Scan s = (Some line, x2)"
    by simp
  have "length (src x2) < length (src s)"
  proof (cases "src s")
    case Nil
    with sc show ?thesis
      by (simp add: Scan_def MaxScanTokenSize_def split: option.splits)
  next
    case (Cons c cs)
    with sc show ?thesis
      by (auto simp: Scan_def split: option.splits if_splits)
  qed
  then show "(x2, s) \<in> measure (\<lambda>s. length (src s))"
    by simp
qed

declare tokens.simps [simp del]

fun run :: "Stats \<Rightarrow> string list \<Rightarrow> Parse_result + Stats" where
  "run p [] = Inr p"
| "run p (l # ls) = (case parse_line p l of Inl res \<Rightarrow> Inl res | Inr p' \<Rightarrow> run p' ls)"

section \<open>Evaluation on concrete inputs\<close>

text \<open>
  \<open>bit_len\<close> on numerals, by the binary digits of the numeral; the position of the first
  newline behind a run of equal bytes; and the definitions that the evaluation of \<open>Parse\<close>
  on a concrete input unfolds.
\<close>

lemma bit_len_0: "bit_len 0 = 0"
  by (simp add: bit_len.simps)

lemma bit_len_1: "bit_len 1 = 1"
  by (simp add: bit_len.simps)

lemma bit_len_Bit0: "bit_len (numeral (Num.Bit0 n)) = Suc (bit_len (numeral n))"
  by (subst bit_len.simps) simp

lemma bit_len_Bit1: "bit_len (numeral (Num.Bit1 n)) = Suc (bit_len (numeral n))"
  by (subst bit_len.simps) simp

lemma IndexByte_replicate:
  "a \<noteq> c \<Longrightarrow> IndexByte (replicate n a @ c # rest) c = Some n"
  by (induction n) simp_all

lemmas conv_defs =
  ParseInt_def ParseUint_def is_digit_def digit_val_def maxUint64_def ParseFloat_def
  nearest_float64_def binary_exponent_def round_even_def scale2_def
  bit_len_0 bit_len_1 bit_len_Bit0 bit_len_Bit1

lemmas line_defs =
  FindStringSubmatch_def statsSizeRe_def statsTransferRe_def HasPrefix_def ReplaceAll_def
  index_def sent_branch_def size_branch_def parse_line_def

lemmas scan_defs =
  Scan_def NewScanner_def Err_def dropCR_def MaxScanTokenSize_def Parse_def scan_loop.simps
  after_loop_def Stats_zero_def

section \<open>The scanner\<close>

text \<open>
  One step of \<open>tokens\<close>. An input that is a sequence of lines, each followed by a newline,
  and possibly a last line without one, is split into these lines when each is shorter
  than \<open>MaxScanTokenSize\<close>, and the scan ends with the error of the reader. A scan ends with
  the error of the reader or with \<open>ErrTooLong\<close>.
\<close>

lemma tokens_line:
  "Scan s = (Some line, s') \<Longrightarrow> tokens s = (line # fst (tokens s'), snd (tokens s'))"
  by (subst tokens.simps) (simp split: prod.splits)

lemma tokens_end:
  "Scan s = (None, s') \<Longrightarrow> tokens s = ([], s')"
  by (subst tokens.simps) simp

lemma IndexByte_append:
  "c \<notin> set l \<Longrightarrow> IndexByte (l @ c # rest) c = Some (length l)"
  by (induction l) auto

lemma IndexByte_None:
  "c \<notin> set l \<Longrightarrow> IndexByte l c = None"
  by (induction l) auto

lemma tokens_of_lines:
  assumes "\<forall>l \<in> set ls. CHR 0x0A \<notin> set l \<and> length l < MaxScanTokenSize"
    and "CHR 0x0A \<notin> set fin" and "length fin < MaxScanTokenSize"
  shows "tokens \<lparr>src = concat (map (\<lambda>l. l @ [CHR 0x0A]) ls) @ fin, src_err = e, err = None\<rparr> =
     (map dropCR ls @ (if fin = [] then [] else [dropCR fin]),
      \<lparr>src = [], src_err = e, err = Some e\<rparr>)"
  using assms(1)
proof (induction ls)
  case Nil
  have last_scan: "Scan \<lparr>src = [], src_err = e, err = None\<rparr> =
      (None, \<lparr>src = [], src_err = e, err = Some e\<rparr>)"
    by (simp add: Scan_def MaxScanTokenSize_def)
  show ?case
  proof (cases "fin = []")
    case True
    with last_scan show ?thesis
      by (simp add: tokens_end)
  next
    case False
    with assms(2,3) have "Scan \<lparr>src = fin, src_err = e, err = None\<rparr> =
        (Some (dropCR fin), \<lparr>src = [], src_err = e, err = None\<rparr>)"
      by (simp add: Scan_def IndexByte_None)
    with False last_scan show ?thesis
      by (simp add: tokens_line tokens_end)
  qed
next
  case (Cons l ls)
  let ?rest = "concat (map (\<lambda>l. l @ [CHR 0x0A]) ls) @ fin"
  from Cons.prems have l: "CHR 0x0A \<notin> set l" "length l < MaxScanTokenSize"
    by simp_all
  then have "Scan \<lparr>src = l @ CHR 0x0A # ?rest, src_err = e, err = None\<rparr> =
      (Some (dropCR l), \<lparr>src = ?rest, src_err = e, err = None\<rparr>)"
    by (simp add: Scan_def IndexByte_append)
  moreover from Cons have "tokens \<lparr>src = ?rest, src_err = e, err = None\<rparr> =
     (map dropCR ls @ (if fin = [] then [] else [dropCR fin]),
      \<lparr>src = [], src_err = e, err = Some e\<rparr>)"
    by simp
  ultimately show ?case
    by (simp add: tokens_line)
qed

lemma tokens_final_err:
  "err s = None \<Longrightarrow> tokens s = (ls, t) \<Longrightarrow>
   err t = Some (src_err s) \<or> err t = Some ErrTooLong"
proof (induction s arbitrary: ls t rule: tokens.induct)
  case (1 s)
  show ?case
  proof (cases "Scan s")
    case (Pair tok s')
    show ?thesis
    proof (cases tok)
      case None
      with Pair have "tokens s = ([], s')"
        by (simp add: tokens_end)
      with "1.prems" have "t = s'"
        by simp
      with Pair None "1.prems"(1) show ?thesis
        by (auto simp: Scan_def split: option.splits if_splits)
    next
      case (Some line)
      with Pair have sc: "Scan s = (Some line, s')"
        by simp
      with "1.prems"(1) have s': "err s' = None" "src_err s' = src_err s"
        by (auto simp: Scan_def split: option.splits if_splits)
      from sc "1.prems"(2) have "snd (tokens s') = t"
        by (simp add: tokens_line)
      then have "tokens s' = (fst (tokens s'), t)"
        by (simp add: prod_eq_iff)
      from "1.IH" [OF sc [symmetric] refl s'(1) this] s'(2) show ?thesis
        by simp
    qed
  qed
qed

lemma tokens_clean:
  "tokens (NewScanner (input, EOF)) = (ls, t) \<Longrightarrow> err t \<noteq> Some ErrTooLong \<Longrightarrow> Err t = None"
  using tokens_final_err [of "NewScanner (input, EOF)" ls t]
  by (auto simp: NewScanner_def Err_def)

section \<open>The loop, line by line\<close>

text \<open>
  \<open>Parse\<close> is the loop body run over the lines of the input, followed by the statements
  after the loop.
\<close>

lemma scan_loop_line:
  "Scan s = (Some line, s') \<Longrightarrow>
   scan_loop p s = (case parse_line p line of Inl res \<Rightarrow> res | Inr p' \<Rightarrow> scan_loop p' s')"
  by (subst scan_loop.simps) simp

lemma scan_loop_end:
  "Scan s = (None, s') \<Longrightarrow> scan_loop p s = after_loop p s'"
  by (subst scan_loop.simps) simp

lemma scan_loop_run:
  "scan_loop p s =
    (case run p (fst (tokens s)) of Inl res \<Rightarrow> res | Inr p' \<Rightarrow> after_loop p' (snd (tokens s)))"
proof (induction s arbitrary: p rule: tokens.induct)
  case (1 s)
  show ?case
  proof (cases "Scan s")
    case (Pair tok s')
    show ?thesis
    proof (cases tok)
      case None
      with Pair show ?thesis
        by (simp add: scan_loop_end tokens_end)
    next
      case (Some line)
      with Pair have sc: "Scan s = (Some line, s')"
        by simp
      show ?thesis
      proof (cases "parse_line p line")
        case (Inl res)
        with sc show ?thesis
          by (simp add: scan_loop_line tokens_line)
      next
        case (Inr p')
        have "scan_loop p' s' =
          (case run p' (fst (tokens s')) of Inl res \<Rightarrow> res
           | Inr q \<Rightarrow> after_loop q (snd (tokens s')))"
          by (rule "1.IH" [OF sc [symmetric] refl])
        with sc Inr show ?thesis
          by (simp add: scan_loop_line tokens_line split: sum.splits)
      qed
    qed
  qed
qed

lemma Parse_run:
  "tokens (NewScanner r) = (ls, t) \<Longrightarrow>
   Parse r = (case run Stats_zero ls of Inl res \<Rightarrow> res | Inr p \<Rightarrow> after_loop p t)"
  by (simp add: Parse_def scan_loop_run split: sum.splits)

lemma run_append:
  "run p (xs @ ys) = (case run p xs of Inl res \<Rightarrow> Inl res | Inr p' \<Rightarrow> run p' ys)"
  by (induction xs arbitrary: p) (simp_all split: sum.splits)

lemma run_skip:
  "\<forall>l \<in> set ls. \<not> HasPrefix l ''sent '' \<and> \<not> HasPrefix l ''total size is '' \<Longrightarrow> run p ls = Inr p"
  by (induction ls) (simp_all add: parse_line_def)

lemma after_loop_clean: "Err t = None \<Longrightarrow> after_loop p t = Return (Some p, None)"
  by (simp add: after_loop_def)

section \<open>The patterns\<close>

text \<open>
  A match has one capture for each group of the pattern, not empty and made of members of
  the class of the group. So a match of the transfer pattern has four entries, a match of
  the size pattern three, the line has the prefix of its pattern, and what the
  conversions are given are digits and, for the rate, points.
\<close>

lemma give_back_Some:
  "give_back k s n = Some r \<Longrightarrow>
   \<exists>m caps. 0 < m \<and> m \<le> n \<and> k (drop m s) = Some caps \<and> r = take m s # caps"
proof (induction n)
  case 0
  then show ?case by simp
next
  case (Suc n)
  show ?case
  proof (cases "k (drop (Suc n) s)")
    case None
    with Suc.prems have "give_back k s n = Some r"
      by simp
    from Suc.IH [OF this] obtain m caps where
      "0 < m" "m \<le> n" "k (drop m s) = Some caps" "r = take m s # caps"
      by blast
    then have "0 < m \<and> m \<le> Suc n \<and> k (drop m s) = Some caps \<and> r = take m s # caps"
      by simp
    then show ?thesis
      by blast
  next
    case (Some caps)
    with Suc.prems have "r = take (Suc n) s # caps"
      by simp
    with Some show ?thesis
      by blast
  qed
qed

lemma take_takeWhile:
  "m \<le> length (takeWhile P s) \<Longrightarrow> \<forall>c \<in> set (take m s). P c"
proof -
  assume "m \<le> length (takeWhile P s)"
  then have "take m s = take m (takeWhile P s)"
    by (metis takeWhile_dropWhile_id take_append diff_is_0_eq take_0 append_Nil2)
  then show ?thesis
    by (metis in_set_takeD set_takeWhileD)
qed

lemma match_nodes_captures:
  "match_nodes re s = Some caps \<Longrightarrow>
   list_all2 (\<lambda>cap cls. cap \<noteq> [] \<and> set cap \<subseteq> set cls) caps (group_classes re)"
proof (induction re arbitrary: s caps)
  case Nil
  then show ?case
    by (simp split: if_splits)
next
  case (Cons nd re)
  show ?case
  proof (cases nd)
    case (Lit l)
    with Cons.prems have "match_nodes re (drop (length l) s) = Some caps"
      by (simp split: if_splits)
    from Cons.IH [OF this] Lit show ?thesis
      by simp
  next
    case (Group cls)
    with Cons.prems
    have "give_back (match_nodes re) s (length (takeWhile (\<lambda>c. c \<in> set cls) s)) = Some caps"
      by simp
    from give_back_Some [OF this] obtain m rest where
      m: "0 < m" "m \<le> length (takeWhile (\<lambda>c. c \<in> set cls) s)"
      and rest: "match_nodes re (drop m s) = Some rest" and caps: "caps = take m s # rest"
      by blast
    from m(2) have "\<forall>c \<in> set (take m s). c \<in> set cls"
      by (rule take_takeWhile)
    moreover from m have "take m s \<noteq> []"
      by (cases s) auto
    ultimately show ?thesis
      using Cons.IH [OF rest] Group caps by auto
  qed
qed

lemma match_nodes_Lit:
  "match_nodes (Lit l # re) s = Some caps \<Longrightarrow> HasPrefix s l"
  by (simp split: if_splits)

lemma transfer_shape:
  "FindStringSubmatch statsTransferRe l = [] \<or>
   (\<exists>m1 m2 m3. FindStringSubmatch statsTransferRe l = [l, m1, m2, m3])"
proof (cases "match_nodes statsTransferRe l")
  case None
  then show ?thesis
    by (simp add: FindStringSubmatch_def)
next
  case (Some caps)
  from match_nodes_captures [OF this] have "length caps = 3"
    by (simp add: statsTransferRe_def list_all2_lengthD)
  then obtain m1 m2 m3 where "caps = [m1, m2, m3]"
    by (auto simp: length_Suc_conv numeral_3_eq_3)
  with Some show ?thesis
    by (simp add: FindStringSubmatch_def)
qed

lemma size_shape:
  "FindStringSubmatch statsSizeRe l = [] \<or>
   (\<exists>n1 n2. FindStringSubmatch statsSizeRe l = [l, n1, n2])"
proof (cases "match_nodes statsSizeRe l")
  case None
  then show ?thesis
    by (simp add: FindStringSubmatch_def)
next
  case (Some caps)
  from match_nodes_captures [OF this] have "length caps = 2"
    by (simp add: statsSizeRe_def list_all2_lengthD)
  then obtain n1 n2 where "caps = [n1, n2]"
    by (auto simp: length_Suc_conv numeral_2_eq_2)
  with Some show ?thesis
    by (simp add: FindStringSubmatch_def)
qed

lemma transfer_prefix:
  "FindStringSubmatch statsTransferRe l = m # ms \<Longrightarrow> HasPrefix l ''sent ''"
  by (auto simp: FindStringSubmatch_def statsTransferRe_def split: option.splits if_splits)

lemma size_prefix:
  "FindStringSubmatch statsSizeRe l = m # ms \<Longrightarrow>
   HasPrefix l ''total size is '' \<and> \<not> HasPrefix l ''sent ''"
proof -
  assume "FindStringSubmatch statsSizeRe l = m # ms"
  then have "HasPrefix l ''total size is ''"
    by (auto simp: FindStringSubmatch_def statsSizeRe_def split: option.splits if_splits)
  moreover from this have "\<not> HasPrefix l ''sent ''"
    by (cases l) (auto simp: HasPrefix_def)
  ultimately show ?thesis
    by simp
qed

lemma ReplaceAll_remove:
  "ReplaceAll s c [] = filter (\<lambda>x. x \<noteq> c) s"
  by (induction s) (simp_all add: ReplaceAll_def)

lemma class_digits:
  "set cap \<subseteq> set ''0123456789,'' \<Longrightarrow> \<forall>c \<in> set (ReplaceAll cap (CHR '','') []). is_digit c"
  by (auto simp: ReplaceAll_remove is_digit_def)

lemma class_digits_point:
  "set cap \<subseteq> set ''0123456789,.'' \<Longrightarrow>
   \<forall>c \<in> set (ReplaceAll cap (CHR '','') []). is_digit c \<or> c = CHR ''.''"
  by (auto simp: ReplaceAll_remove is_digit_def)

lemma transfer_captures:
  assumes "FindStringSubmatch statsTransferRe l = [m0, m1, m2, m3]"
  shows "(\<forall>c \<in> set (ReplaceAll m1 (CHR '','') []). is_digit c) \<and>
         (\<forall>c \<in> set (ReplaceAll m2 (CHR '','') []). is_digit c) \<and>
         (\<forall>c \<in> set (ReplaceAll m3 (CHR '','') []). is_digit c \<or> c = CHR ''.'')"
proof -
  from assms have "match_nodes statsTransferRe l = Some [m1, m2, m3]"
    by (simp add: FindStringSubmatch_def split: option.splits)
  from match_nodes_captures [OF this]
  have "set m1 \<subseteq> set ''0123456789,''" "set m2 \<subseteq> set ''0123456789,''"
    "set m3 \<subseteq> set ''0123456789,.''"
    by (simp_all add: statsTransferRe_def)
  then show ?thesis
    using class_digits class_digits_point by blast
qed

lemma size_captures:
  assumes "FindStringSubmatch statsSizeRe l = [n0, n1, n2]"
  shows "\<forall>c \<in> set (ReplaceAll n1 (CHR '','') []). is_digit c"
proof -
  from assms have "match_nodes statsSizeRe l = Some [n1, n2]"
    by (simp add: FindStringSubmatch_def split: option.splits)
  from match_nodes_captures [OF this] have "set n1 \<subseteq> set ''0123456789,''"
    by (simp add: statsSizeRe_def)
  then show ?thesis
    by (rule class_digits)
qed

section \<open>The loop body\<close>

text \<open>
  The ways in which a line ends the call: an error and no record, or the panic of the
  index expression in the branch of the size line. The same holds for \<open>Parse\<close> as a whole,
  with the return of a record and no error as the third outcome. A line that matches its
  pattern and whose captures convert sets its fields and nothing else.
\<close>

lemma sent_branch_outcomes:
  "sent_branch p l = Inl res \<Longrightarrow> \<exists>e. res = Return (None, Some e)"
  using transfer_shape [of l]
  by (auto simp: sent_branch_def index_def Let_def split: sum.splits)

lemma size_branch_outcomes:
  "size_branch p l = Inl res \<Longrightarrow>
   (\<exists>e. res = Return (None, Some e)) \<or> res = Panic (IndexOutOfRange 1 0)"
  using size_shape [of l]
  by (auto simp: size_branch_def index_def Let_def split: sum.splits)

lemma run_outcomes:
  "run p ls = Inl res \<Longrightarrow>
   (\<exists>e. res = Return (None, Some e)) \<or> res = Panic (IndexOutOfRange 1 0)"
proof (induction ls arbitrary: p)
  case Nil
  then show ?case by simp
next
  case (Cons l ls)
  show ?case
  proof (cases "parse_line p l")
    case (Inl r)
    with Cons.prems have "parse_line p l = Inl res"
      by simp
    then show ?thesis
      using sent_branch_outcomes size_branch_outcomes
      by (fastforce simp: parse_line_def split: if_splits)
  next
    case (Inr p')
    with Cons show ?thesis
      by simp
  qed
qed

lemma Parse_outcomes:
  "(\<exists>p. Parse r = Return (Some p, None)) \<or> (\<exists>e. Parse r = Return (None, Some e)) \<or>
   Parse r = Panic (IndexOutOfRange 1 0)"
proof (cases "run Stats_zero (fst (tokens (NewScanner r)))")
  case (Inl res)
  with run_outcomes [OF Inl] show ?thesis
    by (auto simp: Parse_def scan_loop_run)
next
  case (Inr p)
  then have "Parse r = after_loop p (snd (tokens (NewScanner r)))"
    by (simp add: Parse_def scan_loop_run)
  then show ?thesis
    by (auto simp: after_loop_def split: option.splits)
qed

lemma sent_branch_ok:
  assumes "FindStringSubmatch statsTransferRe l = [m0, m1, m2, m3]"
    and "ParseInt (ReplaceAll m1 (CHR '','') []) = Inr w"
    and "ParseInt (ReplaceAll m2 (CHR '','') []) = Inr r"
    and "ParseFloat (ReplaceAll m3 (CHR '','') []) = Inr b"
  shows "sent_branch p l = Inr (p\<lparr>Found := True, TotalWritten := w, TotalRead := r, BytesPerSec := b\<rparr>)"
  using assms by (simp add: sent_branch_def index_def)

lemma size_branch_ok:
  assumes "FindStringSubmatch statsSizeRe l = [n0, n1, n2]"
    and "ParseInt (ReplaceAll n1 (CHR '','') []) = Inr z"
  shows "size_branch p l = Inr (p\<lparr>Found := True, TotalSize := z\<rparr>)"
  using assms by (simp add: size_branch_def index_def)

lemma parse_line_transfer:
  assumes "FindStringSubmatch statsTransferRe l = [m0, m1, m2, m3]"
    and "ParseInt (ReplaceAll m1 (CHR '','') []) = Inr w"
    and "ParseInt (ReplaceAll m2 (CHR '','') []) = Inr r"
    and "ParseFloat (ReplaceAll m3 (CHR '','') []) = Inr b"
  shows "parse_line p l = Inr (p\<lparr>Found := True, TotalWritten := w, TotalRead := r, BytesPerSec := b\<rparr>)"
  using sent_branch_ok [OF assms] transfer_prefix [OF assms(1)] by (simp add: parse_line_def)

lemma parse_line_size:
  assumes "FindStringSubmatch statsSizeRe l = [n0, n1, n2]"
    and "ParseInt (ReplaceAll n1 (CHR '','') []) = Inr z"
  shows "parse_line p l = Inr (p\<lparr>Found := True, TotalSize := z\<rparr>)"
  using size_branch_ok [OF assms] size_prefix [OF assms(1)] by (simp add: parse_line_def)

section \<open>Integers and doubles\<close>

text \<open>
  On digits without a leading zero, and on the text \<^verbatim>\<open>0\<close>, \<open>ParseInt\<close> is the base-10 reading
  as long as the value fits into an \<^verbatim>\<open>int64\<close>. On digits with at most one point
  \<open>ParseFloat\<close> is the double nearest to the base-10 reading. The conversion of an \<^verbatim>\<open>int64\<close> to \<^verbatim>\<open>float64\<close> is exact below
  \<open>2 ^ 53\<close>, and the quotient of Go is the exact ratio truncated towards zero.
\<close>

lemma is_digit_val: "is_digit c \<Longrightarrow> digit_val c < 10"
  by (auto simp: is_digit_def digit_val_def)

lemma foldl_decimal_ge:
  "n \<le> foldl (\<lambda>n c. n * 10 + digit_val c) n cs"
proof (induction cs arbitrary: n)
  case Nil
  show ?case by simp
next
  case (Cons c cs)
  have "n \<le> n * 10 + digit_val c"
    by simp
  also have "\<dots> \<le> foldl (\<lambda>n c. n * 10 + digit_val c) (n * 10 + digit_val c) cs"
    by (rule Cons.IH)
  finally show ?case
    by simp
qed

lemma digits_loop_decimal:
  assumes "\<forall>c \<in> set cs. is_digit c"
    and "foldl (\<lambda>n c. n * 10 + digit_val c) n cs < 2 ^ 64"
  shows "digits_loop 10 n cs = Inr (foldl (\<lambda>n c. n * 10 + digit_val c) n cs)"
  using assms
proof (induction cs arbitrary: n)
  case Nil
  show ?case by simp
next
  case (Cons c cs)
  let ?n1 = "n * 10 + digit_val c"
  from Cons.prems have dig: "is_digit c" and rest: "\<forall>c \<in> set cs. is_digit c"
    and bound: "foldl (\<lambda>n c. n * 10 + digit_val c) ?n1 cs < 2 ^ 64"
    by simp_all
  from foldl_decimal_ge [of ?n1 cs] bound have n1: "?n1 < 2 ^ 64"
    by linarith
  then have cut: "\<not> maxUint64 div 10 + 1 \<le> n"
    by (simp add: maxUint64_def)
  from n1 have md: "?n1 mod 2 ^ 64 = ?n1"
    by simp
  from n1 have mx: "\<not> maxUint64 < ?n1"
    by (simp add: maxUint64_def)
  from is_digit_val [OF dig] have dv: "\<not> 10 \<le> digit_val c"
    by simp
  from Cons.IH [OF rest bound] dig dv cut md mx show ?case
    by (simp add: Let_def)
qed

lemma ParseInt_decimal:
  assumes "s \<noteq> []" and "hd s \<noteq> CHR ''0''" and "\<forall>c \<in> set s. is_digit c"
    and "decimal s < 2 ^ 63"
  shows "ParseInt s = Inr (word_of_nat (decimal s))"
proof -
  from assms(4) have "foldl (\<lambda>n c. n * 10 + digit_val c) 0 s < 2 ^ 64"
    by (simp add: decimal_def)
  from digits_loop_decimal [OF assms(3) this] assms(1,2,4) show ?thesis
    by (simp add: ParseInt_def ParseUint_def decimal_def)
qed

lemma is_digit_not_point: "is_digit c \<Longrightarrow> c \<noteq> CHR ''.''"
  by (auto simp: is_digit_def)

lemma readFloat_fraction:
  "\<forall>c \<in> set fp. is_digit c \<Longrightarrow>
   readFloat fp True sd m k =
     (if sd \<or> fp \<noteq> [] then Some (foldl (\<lambda>n c. n * 10 + digit_val c) m fp, k + length fp)
      else None)"
  by (induction fp arbitrary: sd m k) (auto simp: is_digit_not_point)

lemma readFloat_integer:
  "\<forall>c \<in> set ip. is_digit c \<Longrightarrow>
   readFloat (ip @ rest) False sd m 0 =
     readFloat rest False (sd \<or> ip \<noteq> []) (foldl (\<lambda>n c. n * 10 + digit_val c) m ip) 0"
  by (induction ip arbitrary: sd m) (auto simp: is_digit_not_point)

lemma ParseFloat_decimal:
  assumes chars: "\<forall>c \<in> set s. is_digit c \<or> c = CHR ''.''"
    and ip: "ip = takeWhile (\<lambda>c. c \<noteq> CHR ''.'') s"
    and fp: "fp = drop (Suc (length ip)) s"
    and one: "CHR ''.'' \<notin> set fp"
    and some: "ip @ fp \<noteq> []"
    and fits: "nearest_float64 (decimal (ip @ fp)) (10 ^ length fp) < 2 ^ 1024"
  shows "ParseFloat s = Inr (nearest_float64 (decimal (ip @ fp)) (10 ^ length fp))"
proof -
  let ?step = "\<lambda>n c. n * 10 + digit_val c"
  let ?rest = "dropWhile (\<lambda>c. c \<noteq> CHR ''.'') s"
  have s: "s = ip @ ?rest"
    by (simp add: ip)
  have dip: "\<forall>c \<in> set ip. is_digit c"
  proof
    fix c assume "c \<in> set ip"
    then have "c \<in> set s" "c \<noteq> CHR ''.''"
      unfolding ip by (auto dest: set_takeWhileD)
    with chars show "is_digit c"
      by blast
  qed
  have dfp: "\<forall>c \<in> set fp. is_digit c"
  proof
    fix c assume c: "c \<in> set fp"
    then have "c \<in> set s"
      unfolding fp by (rule in_set_dropD)
    with chars one c show "is_digit c"
      by blast
  qed
  have fp': "fp = drop (Suc 0) ?rest"
  proof -
    have "drop (Suc (length ip)) (ip @ ?rest) = drop (Suc 0) ?rest"
      by simp
    with s fp show ?thesis
      by simp
  qed
  have rd: "readFloat s False False 0 0 = Some (decimal (ip @ fp), length fp)"
  proof (cases ?rest)
    case Nil
    with fp' have "fp = []"
      by simp
    moreover have "s = ip"
      using s unfolding Nil by simp
    ultimately show ?thesis
      using readFloat_integer [OF dip, of "[]" False 0] some
      by (simp add: decimal_def)
  next
    case (Cons c cs)
    then have "c = CHR ''.''"
      using hd_dropWhile [of "\<lambda>c. c \<noteq> CHR ''.''" s] by simp
    with Cons fp' have rest: "?rest = CHR ''.'' # fp"
      by simp
    have "readFloat s False False 0 0 = readFloat (ip @ CHR ''.'' # fp) False False 0 0"
      using s rest by simp
    also have "\<dots> = readFloat (CHR ''.'' # fp) False (ip \<noteq> []) (foldl ?step 0 ip) 0"
      using readFloat_integer [OF dip, of "CHR ''.'' # fp" False 0] by simp
    also have "\<dots> = readFloat fp True (ip \<noteq> []) (foldl ?step 0 ip) 0"
      by simp
    also have "\<dots> = Some (foldl ?step (foldl ?step 0 ip) fp, length fp)"
      using readFloat_fraction [OF dfp, of "ip \<noteq> []" "foldl ?step 0 ip" 0] some by auto
    finally show ?thesis
      by (simp add: decimal_def)
  qed
  from fits have "\<not> 2 ^ 1024 \<le> nearest_float64 (decimal (ip @ fp)) (10 ^ length fp)"
    by simp
  with rd show ?thesis
    by (simp add: ParseFloat_def Let_def)
qed

lemma ParseInt_base10:
  assumes "s \<noteq> []" and "hd s \<noteq> CHR ''0'' \<or> s = ''0''" and "\<forall>c \<in> set s. is_digit c"
    and "decimal s < 2 ^ 63"
  shows "ParseInt s = Inr (word_of_nat (decimal s))"
proof (cases "s = ''0''")
  case True
  then show ?thesis
    by (simp add: ParseInt_def ParseUint_def decimal_def digit_val_def)
next
  case False
  with assms(2) have "hd s \<noteq> CHR ''0''"
    by simp
  from ParseInt_decimal [OF assms(1) this assms(3,4)] show ?thesis .
qed

lemma bit_len_bounds:
  "0 < n \<Longrightarrow> 2 ^ (bit_len n - 1) \<le> n \<and> n < 2 ^ bit_len n"
proof (induction n rule: bit_len.induct)
  case (1 n)
  show ?case
  proof (cases "n div 2 = 0")
    case True
    with "1.prems" have "n = 1"
      by (simp add: div_eq_0_iff) 
    then show ?thesis
      by (simp add: bit_len.simps)
  next
    case False
    with "1.IH" "1.prems" have ih: "2 ^ (bit_len (n div 2) - 1) \<le> n div 2" "n div 2 < 2 ^ bit_len (n div 2)"
      by simp_all
    from False have pos: "0 < bit_len (n div 2)"
      by (subst bit_len.simps) simp
    have bl: "bit_len n = Suc (bit_len (n div 2))"
      using "1.prems" by (subst bit_len.simps) simp
    from ih(1) have "2 * 2 ^ (bit_len (n div 2) - 1) \<le> n"
      by linarith
    moreover from pos have "2 * 2 ^ (bit_len (n div 2) - 1) = (2::nat) ^ bit_len (n div 2)"
      by (cases "bit_len (n div 2)") simp_all
    moreover from ih(2) have "n < 2 * 2 ^ bit_len (n div 2)"
      by linarith
    ultimately show ?thesis
      by (simp add: bl)
  qed
qed

lemma nearest_float64_nat:
  assumes "n < 2 ^ 53"
  shows "nearest_float64 n 1 = of_nat n"
proof (cases "n = 0")
  case True
  then show ?thesis
    by (simp add: nearest_float64_def)
next
  case False
  then have pos: "0 < n"
    by simp
  from bit_len_bounds [OF pos] have lo: "2 ^ (bit_len n - 1) \<le> n" and hi: "n < 2 ^ bit_len n"
    by simp_all
  from pos have bpos: "0 < bit_len n"
    by (subst bit_len.simps) simp
  have le53: "bit_len n \<le> 53"
  proof (rule ccontr)
    assume "\<not> bit_len n \<le> 53"
    then have "53 \<le> bit_len n - 1"
      by simp
    then have "(2::nat) ^ 53 \<le> 2 ^ (bit_len n - 1)"
      by (rule power_increasing) simp
    with lo assms show False
      by linarith
  qed
  have b1: "bit_len (Suc 0) = 1"
    by (simp add: bit_len.simps)
  from bpos have "nat (int (bit_len n) - 1) = bit_len n - 1"
    by simp
  with bpos lo have be: "binary_exponent n (Suc 0) = int (bit_len n) - 1"
    by (simp add: binary_exponent_def b1 Let_def)
  define k where "k = 53 - bit_len n"
  from le53 have e: "max (binary_exponent n (Suc 0) - 52) (- 1074) = - int k"
    by (simp add: be k_def)
  show ?thesis
  proof (cases "k = 0")
    case True
    with e False show ?thesis
      by (simp add: nearest_float64_def round_even_def scale2_def)
  next
    case k: False
    with e False show ?thesis
      by (simp add: nearest_float64_def round_even_def scale2_def)
  qed
qed

lemma float64_of_int64_exact:
  assumes "\<bar>sint x\<bar> < 2 ^ 53"
  shows "float64_of_int64 x = of_int (sint x)"
proof (cases "0 \<le> sint x")
  case True
  with assms have "nat (sint x) < 2 ^ 53"
    by simp
  from nearest_float64_nat [OF this] True show ?thesis
    by (simp add: float64_of_int64_def)
next
  case False
  with assms have "nat (- sint x) < 2 ^ 53"
    by simp
  from nearest_float64_nat [OF this] False show ?thesis
    by (simp add: float64_of_int64_def)
qed

lemma sdiv_truncates:
  fixes a b :: int
  assumes "b \<noteq> 0"
  shows "a sdiv b =
    (if 0 \<le> (of_int a / of_int b :: rat) then \<lfloor>of_int a / of_int b :: rat\<rfloor>
     else \<lceil>of_int a / of_int b :: rat\<rceil>)"
proof -
  have fl: "\<lfloor>of_int a / of_int b :: rat\<rfloor> = a div b"
    by (simp add: floor_divide_of_int_eq)
  have ce: "\<lceil>of_int a / of_int b :: rat\<rceil> = - ((- a) div b)"
  proof -
    have "- (of_int a / of_int b :: rat) = of_int (- a) / of_int b"
      by simp
    then have "\<lfloor>- (of_int a / of_int b :: rat)\<rfloor> = (- a) div b"
      by (simp only: floor_divide_of_int_eq)
    then show ?thesis
      by (simp add: ceiling_def)
  qed
  consider "0 \<le> a" "0 < b" | "a < 0" "0 < b" | "a \<le> 0" "b < 0" | "0 < a" "b < 0"
    using assms by linarith
  then show ?thesis
  proof cases
    case 1
    then show ?thesis
      by (simp add: fl signed_divide_int_def sgn_if)
  next
    case 2
    then have "(of_int a / of_int b :: rat) < 0"
      by (simp add: divide_neg_pos)
    with 2 show ?thesis
      by (simp add: ce signed_divide_int_def sgn_if)
  next
    case 3
    then have "0 \<le> (of_int a / of_int b :: rat)"
      by (simp add: divide_nonpos_neg)
    with 3 show ?thesis
      by (auto simp add: fl signed_divide_int_def sgn_if)
  next
    case 4
    then have "(of_int a / of_int b :: rat) < 0"
      by (simp add: divide_pos_neg)
    with 4 show ?thesis
      by (simp add: ce signed_divide_int_def sgn_if div_minus_right)
  qed
qed

section \<open>Two kinds of input\<close>

text \<open>
  A line with the prefix \<^verbatim>\<open>total size is \<close> that misses its pattern, reached without an
  earlier end of the call, makes \<open>Parse\<close> panic. An input made of lines that each are
  shorter than \<open>MaxScanTokenSize\<close> and have neither prefix yields the zero record.
\<close>

lemma Parse_size_mismatch:
  assumes "tokens (NewScanner r) = (pre @ line # post, t)"
    and "run Stats_zero pre = Inr p"
    and "\<not> HasPrefix line ''sent ''"
    and "HasPrefix line ''total size is ''"
    and "FindStringSubmatch statsSizeRe line = []"
  shows "Parse r = Panic (IndexOutOfRange 1 0)"
proof -
  have "parse_line p line = Inl (Panic (IndexOutOfRange 1 0))"
    using assms(3-5) by (simp add: parse_line_def size_branch_def index_def)
  then have "run Stats_zero (pre @ line # post) = Inl (Panic (IndexOutOfRange 1 0))"
    using assms(2) by (simp add: run_append)
  then show ?thesis
    by (simp add: Parse_run [OF assms(1)])
qed

lemma Parse_skips_lines:
  assumes "\<forall>l \<in> set (fin # ls). CHR 0x0A \<notin> set l \<and> length l < MaxScanTokenSize \<and>
      \<not> HasPrefix (dropCR l) ''sent '' \<and> \<not> HasPrefix (dropCR l) ''total size is ''"
  shows "Parse (concat (map (\<lambda>l. l @ [CHR 0x0A]) ls) @ fin, EOF) = Return (Some Stats_zero, None)"
proof -
  let ?end = "\<lparr>src = [], src_err = EOF, err = Some EOF\<rparr>"
  from assms have "tokens (NewScanner (concat (map (\<lambda>l. l @ [CHR 0x0A]) ls) @ fin, EOF)) =
      (map dropCR ls @ (if fin = [] then [] else [dropCR fin]), ?end)"
    by (simp add: NewScanner_def tokens_of_lines)
  moreover from assms have "run Stats_zero (map dropCR ls @ (if fin = [] then [] else [dropCR fin])) =
      Inr Stats_zero"
    by (intro run_skip) auto
  moreover have "Err ?end = None"
    by (simp add: Err_def)
  ultimately show ?thesis
    by (simp add: Parse_run after_loop_clean)
qed

section \<open>Single recognised lines\<close>

text \<open>
  C4. On the input that is the one line
  \<^verbatim>\<open>sent 1,590 bytes  received 18 bytes  3,216.00 bytes/sec\<close>, \<open>Parse\<close> returns a record and
  no error; the record has \<open>Found\<close> set, \<open>TotalWritten = 1590\<close>, \<open>TotalRead = 18\<close> and
  \<open>BytesPerSec = 3216\<close>, and \<open>TotalSize\<close> is still zero.
\<close>

theorem Parse_transfer_line:
  "Parse (''sent 1,590 bytes  received 18 bytes  3,216.00 bytes/sec'', EOF) =
     Return (Some \<lparr>Found = True, TotalWritten = 1590, TotalRead = 18, BytesPerSec = 3216,
                   TotalSize = 0\<rparr>, None)"
  by (simp add: conv_defs line_defs scan_defs)

text \<open>
  C5. On the input that is the one line \<^verbatim>\<open>total size is 1,188,046  speedup is 738.83\<close>,
  \<open>Parse\<close> returns a record and no error; the record has \<open>Found\<close> set and
  \<open>TotalSize = 1188046\<close>. The second capture, \<^verbatim>\<open>738.83\<close>, is matched by the pattern and goes
  into no field: \<open>TotalWritten\<close>, \<open>TotalRead\<close> and \<open>BytesPerSec\<close> are still zero.
\<close>

theorem Parse_size_line:
  "FindStringSubmatch statsSizeRe ''total size is 1,188,046  speedup is 738.83'' =
     [''total size is 1,188,046  speedup is 738.83'', ''1,188,046'', ''738.83''] \<and>
   Parse (''total size is 1,188,046  speedup is 738.83'', EOF) =
     Return (Some \<lparr>Found = True, TotalWritten = 0, TotalRead = 0, BytesPerSec = 0,
                   TotalSize = 1188046\<rparr>, None)"
  by (simp add: conv_defs line_defs scan_defs)

text \<open>
  C10. The line \<^verbatim>\<open>sent , bytes  received 1 bytes  1.0 bytes/sec\<close> matches the whole pattern
  of the transfer line, its first capture being a lone comma. Without the comma the
  capture is the empty text, \<open>ParseInt\<close> fails on it, and \<open>Parse\<close> returns that conversion
  error, which is not the error of a line that misses the pattern, and no record.
\<close>

theorem Parse_comma_only_capture:
  "FindStringSubmatch statsTransferRe ''sent , bytes  received 1 bytes  1.0 bytes/sec'' =
     [''sent , bytes  received 1 bytes  1.0 bytes/sec'', '','', ''1'', ''1.0''] \<and>
   ReplaceAll '','' (CHR '','') [] = [] \<and>
   ParseInt [] = Inl (NumError ''ParseInt'' [] ErrSyntax) \<and>
   Parse (''sent , bytes  received 1 bytes  1.0 bytes/sec'', EOF) =
     Return (None, Some (NumError ''ParseInt'' [] ErrSyntax))"
  by (simp add: conv_defs line_defs scan_defs)

text \<open>
  C3, at captures with a leading zero. \<open>ParseInt\<close> is called with base 0, so the text
  \<^verbatim>\<open>010\<close> is read in base 8: the record holds 8 where the base-10 reading is 10. The text
  \<^verbatim>\<open>08\<close> is no number in base 8, and \<open>Parse\<close> returns a syntax error where the base-10
  reading is 8. (Without a leading zero the stored value is the base-10 reading, by
  \<open>ParseInt_decimal\<close>; the rate is read in base 10 with or without one.)
\<close>

theorem Parse_leading_zero_is_octal:
  "decimal ''010'' = 10 \<and>
   Parse (''sent 010 bytes  received 18 bytes  3,216.00 bytes/sec'', EOF) =
     Return (Some \<lparr>Found = True, TotalWritten = 8, TotalRead = 18, BytesPerSec = 3216,
                   TotalSize = 0\<rparr>, None) \<and>
   decimal ''08'' = 8 \<and>
   Parse (''sent 08 bytes  received 18 bytes  03,216.00 bytes/sec'', EOF) =
     Return (None, Some (NumError ''ParseInt'' ''08'' ErrSyntax)) \<and>
   ParseFloat ''03216.00'' = Inr 3216"
  by (simp add: decimal_def conv_defs line_defs scan_defs)

text \<open>
  C7, at a line with the prefix \<^verbatim>\<open>total size is \<close> that misses the pattern. The match is
  the nil slice, its length is never tested, and the index expression \<^verbatim>\<open>matches[1]\<close>
  panics: the call of \<open>Parse\<close> returns neither a record nor an error. (\<open>Parse_size_mismatch\<close>
  is the general case; by \<open>Parse_outcomes\<close> this panic is the only way in which a call does
  not return a record and no error, or an error and no record.)
\<close>

theorem Parse_size_line_mismatch_panics:
  "Parse (''total size is unknown'', EOF) = Panic (IndexOutOfRange 1 0)"
  by (simp add: conv_defs line_defs scan_defs)

section \<open>Lines that miss their pattern\<close>

text \<open>
  C1, as amended. Let the lines before a line with the prefix \<^verbatim>\<open>sent \<close> all be processed
  without ending the call, and let that line miss the pattern of the transfer line. Then
  \<open>Parse\<close> returns no record and the error whose message points at the locale,
  \<^verbatim>\<open>could not parse rsync 'sent' line; try starting rsync with LC_ALL=C.UTF-8\<close>.
\<close>

theorem Parse_sent_mismatch:
  assumes "tokens (NewScanner r) = (pre @ line # post, t)"
    and "run Stats_zero pre = Inr p"
    and "HasPrefix line ''sent ''"
    and "FindStringSubmatch statsTransferRe line = []"
  shows "Parse r = Return (None, Some (Errorf
    ''could not parse rsync 'sent' line; try starting rsync with LC_ALL=C.UTF-8''))"
proof -
  have "parse_line p line = Inl (Return (None, Some (Errorf
    ''could not parse rsync 'sent' line; try starting rsync with LC_ALL=C.UTF-8'')))"
    using assms(3,4) by (simp add: parse_line_def sent_branch_def)
  then have "run Stats_zero (pre @ line # post) = Inl (Return (None, Some (Errorf
    ''could not parse rsync 'sent' line; try starting rsync with LC_ALL=C.UTF-8'')))"
    using assms(2) by (simp add: run_append)
  then show ?thesis
    by (simp add: Parse_run [OF assms(1)])
qed

text \<open>The amended C1 on three lines, the second of which has the prefix and no rate.\<close>

theorem Parse_sent_mismatch_witness:
  "tokens (NewScanner (''receiving file list\<newline>sent 1,590 bytes\<newline>done'', EOF)) =
     ([''receiving file list'', ''sent 1,590 bytes'', ''done''],
      \<lparr>src = [], src_err = EOF, err = Some EOF\<rparr>) \<and>
   run Stats_zero [''receiving file list''] = Inr Stats_zero \<and>
   HasPrefix ''sent 1,590 bytes'' ''sent '' \<and>
   FindStringSubmatch statsTransferRe ''sent 1,590 bytes'' = [] \<and>
   Parse (''receiving file list\<newline>sent 1,590 bytes\<newline>done'', EOF) =
     Return (None, Some (Errorf
       ''could not parse rsync 'sent' line; try starting rsync with LC_ALL=C.UTF-8''))"
proof -
  have tk: "tokens (NewScanner (''receiving file list\<newline>sent 1,590 bytes\<newline>done'', EOF)) =
     ([''receiving file list''] @ ''sent 1,590 bytes'' # [''done''],
      \<lparr>src = [], src_err = EOF, err = Some EOF\<rparr>)"
    by (simp add: tokens.simps Scan_def NewScanner_def dropCR_def MaxScanTokenSize_def)
  have rn: "run Stats_zero [''receiving file list''] = Inr Stats_zero"
    by (simp add: parse_line_def HasPrefix_def)
  have pf: "HasPrefix ''sent 1,590 bytes'' ''sent ''"
    by (simp add: HasPrefix_def)
  have mm: "FindStringSubmatch statsTransferRe ''sent 1,590 bytes'' = []"
    by (simp add: line_defs)
  from Parse_sent_mismatch [OF tk rn pf mm] tk rn pf mm show ?thesis
    by simp
qed

text \<open>
  C1 as stated fails twice. An input whose second line has the prefix \<^verbatim>\<open>sent \<close> and misses
  the pattern is answered with the conversion error of its first line, since the loop
  ends at the first error. And a line with the prefix \<^verbatim>\<open>total size is \<close> that misses its
  pattern is answered with no error at all: the call panics.
\<close>

theorem Parse_mismatch_counterexample:
  "HasPrefix ''sent 1 bytes'' ''sent '' \<and>
   FindStringSubmatch statsTransferRe ''sent 1 bytes'' = [] \<and>
   Parse (''sent , bytes  received 1 bytes  1.0 bytes/sec\<newline>sent 1 bytes'', EOF) =
     Return (None, Some (NumError ''ParseInt'' [] ErrSyntax)) \<and>
   HasPrefix ''total size is 1,188,046'' ''total size is '' \<and>
   FindStringSubmatch statsSizeRe ''total size is 1,188,046'' = [] \<and>
   Parse (''total size is 1,188,046'', EOF) = Panic (IndexOutOfRange 1 0)"
  by (simp add: conv_defs line_defs scan_defs)

section \<open>Lines with neither prefix\<close>

text \<open>
  C6, as amended. Let the input be read to a clean end of the stream, let the scanner
  meet no line that is too long for its buffer (none of 65536 bytes or more, see
  \<open>tokens_of_lines\<close> and \<open>Parse_skips_lines\<close>), and let no line have one of the two prefixes. Then \<open>Parse\<close> returns no
  error and the record with \<open>Found\<close> false and all four numbers zero. The empty input is
  the case of no line.
\<close>

theorem Parse_unrecognised_only:
  assumes "tokens (NewScanner (input, EOF)) = (ls, t)"
    and "err t \<noteq> Some ErrTooLong"
    and "\<forall>l \<in> set ls. \<not> HasPrefix l ''sent '' \<and> \<not> HasPrefix l ''total size is ''"
  shows "Parse (input, EOF) = Return (Some \<lparr>Found = False, TotalWritten = 0, TotalRead = 0,
    BytesPerSec = 0, TotalSize = 0\<rparr>, None)"
  using run_skip [OF assms(3), of Stats_zero] tokens_clean [OF assms(1,2)]
  by (simp add: Parse_run [OF assms(1)] after_loop_clean Stats_zero_def)

text \<open>The amended C6 on an input of two lines and on the empty input.\<close>

theorem Parse_unrecognised_only_witness:
  "tokens (NewScanner (''receiving file list\<newline>./\<newline>'', EOF)) =
     ([''receiving file list'', ''./''], \<lparr>src = [], src_err = EOF, err = Some EOF\<rparr>) \<and>
   Parse (''receiving file list\<newline>./\<newline>'', EOF) =
     Return (Some \<lparr>Found = False, TotalWritten = 0, TotalRead = 0, BytesPerSec = 0,
                   TotalSize = 0\<rparr>, None) \<and>
   tokens (NewScanner ([], EOF)) = ([], \<lparr>src = [], src_err = EOF, err = Some EOF\<rparr>) \<and>
   Parse ([], EOF) =
     Return (Some \<lparr>Found = False, TotalWritten = 0, TotalRead = 0, BytesPerSec = 0,
                   TotalSize = 0\<rparr>, None)"
proof -
  let ?end = "\<lparr>src = [], src_err = EOF, err = Some EOF\<rparr>"
  have tk: "tokens (NewScanner (''receiving file list\<newline>./\<newline>'', EOF)) =
     ([''receiving file list'', ''./''], ?end)"
    by (simp add: tokens.simps Scan_def NewScanner_def dropCR_def MaxScanTokenSize_def)
  have te: "tokens (NewScanner ([], EOF)) = ([], ?end)"
    by (simp add: tokens.simps Scan_def NewScanner_def dropCR_def MaxScanTokenSize_def)
  have er: "err ?end \<noteq> Some ErrTooLong"
    by simp
  from Parse_unrecognised_only [OF tk er] Parse_unrecognised_only [OF te er] tk te show ?thesis
    by (simp add: HasPrefix_def)
qed

text \<open>
  C6 as stated fails on a line that has neither prefix and is longer than the buffer of
  the scanner: 65536 bytes \<^verbatim>\<open>a\<close> and a newline. The scan stops with \<open>ErrTooLong\<close>, which
  \<open>Parse\<close> returns.
\<close>

theorem Parse_long_line_counterexample:
  "\<not> HasPrefix (replicate 65536 (CHR ''a'')) ''sent '' \<and>
   \<not> HasPrefix (replicate 65536 (CHR ''a'')) ''total size is '' \<and>
   Parse (replicate 65536 (CHR ''a'') @ ''\<newline>'', EOF) = Return (None, Some ErrTooLong)"
  by (simp add: scan_defs HasPrefix_def IndexByte_replicate)

section \<open>Both recognised lines\<close>

text \<open>
  C8, as amended. Let the input be read to a clean end of the stream, let the scanner
  meet no line that is too long for its buffer, and let the lines of the input be one
  line that matches the pattern of the transfer line, one that matches the pattern of the
  size line, in either order, and otherwise lines with neither prefix. Let each of the
  three integer captures, without its commas, be not empty, have no leading zero unless
  it is the text \<^verbatim>\<open>0\<close>, and have a base-10 value below \<open>2 ^ 63\<close>; let the capture of the
  rate, without its commas, have a digit and at most one point, \<open>ip\<close> being its digits
  before the point and \<open>fp\<close> those behind it, and let the double nearest to its value be
  finite. Then \<open>Parse\<close> returns no error and the record with \<open>Found\<close> set, the base-10
  values of the three integer captures, and the double nearest to the base-10 value of
  the rate, the same for both orders.
\<close>

theorem Parse_both_lines:
  assumes "tokens (NewScanner (input, EOF)) = (ls, t)"
    and "err t \<noteq> Some ErrTooLong"
    and "ls = pre @ tline # mid @ sline # post \<or> ls = pre @ sline # mid @ tline # post"
    and "\<forall>l \<in> set (pre @ mid @ post). \<not> HasPrefix l ''sent '' \<and> \<not> HasPrefix l ''total size is ''"
    and "FindStringSubmatch statsTransferRe tline = [m0, m1, m2, m3]"
    and "FindStringSubmatch statsSizeRe sline = [n0, n1, n2]"
    and "wtext = ReplaceAll m1 (CHR '','') []"
    and "wtext \<noteq> []" and "hd wtext \<noteq> CHR ''0'' \<or> wtext = ''0''"
    and "decimal wtext < 2 ^ 63"
    and "rtext = ReplaceAll m2 (CHR '','') []"
    and "rtext \<noteq> []" and "hd rtext \<noteq> CHR ''0'' \<or> rtext = ''0''"
    and "decimal rtext < 2 ^ 63"
    and "ztext = ReplaceAll n1 (CHR '','') []"
    and "ztext \<noteq> []" and "hd ztext \<noteq> CHR ''0'' \<or> ztext = ''0''"
    and "decimal ztext < 2 ^ 63"
    and "ip = takeWhile (\<lambda>c. c \<noteq> CHR ''.'') (ReplaceAll m3 (CHR '','') [])"
    and "fp = drop (Suc (length ip)) (ReplaceAll m3 (CHR '','') [])"
    and "CHR ''.'' \<notin> set fp" and "ip @ fp \<noteq> []"
    and "nearest_float64 (decimal (ip @ fp)) (10 ^ length fp) < 2 ^ 1024"
  shows "Parse (input, EOF) =
    Return (Some \<lparr>Found = True,
                  TotalWritten = word_of_nat (decimal wtext),
                  TotalRead = word_of_nat (decimal rtext),
                  BytesPerSec = nearest_float64 (decimal (ip @ fp)) (10 ^ length fp),
                  TotalSize = word_of_nat (decimal ztext)\<rparr>, None)"
proof -
  note caps = transfer_captures [OF assms(5)]
  have w: "ParseInt (ReplaceAll m1 (CHR '','') []) = Inr (word_of_nat (decimal wtext))"
    using ParseInt_base10 [OF assms(8,9) _ assms(10)] caps assms(7) by simp
  have r: "ParseInt (ReplaceAll m2 (CHR '','') []) = Inr (word_of_nat (decimal rtext))"
    using ParseInt_base10 [OF assms(12,13) _ assms(14)] caps assms(11) by simp
  have z: "ParseInt (ReplaceAll n1 (CHR '','') []) = Inr (word_of_nat (decimal ztext))"
    using ParseInt_base10 [OF assms(16,17) _ assms(18)] size_captures [OF assms(6)] assms(15)
    by simp
  have b: "ParseFloat (ReplaceAll m3 (CHR '','') []) =
      Inr (nearest_float64 (decimal (ip @ fp)) (10 ^ length fp))"
    using caps by (intro ParseFloat_decimal [OF _ assms(19-23)]) simp
  note tr = parse_line_transfer [OF assms(5) w r b]
  note sz = parse_line_size [OF assms(6) z]
  have skip: "run p pre = Inr p" "run p mid = Inr p" "run p post = Inr p" for p
    using assms(4) by (simp_all add: run_skip)
  have "run Stats_zero ls = Inr \<lparr>Found = True,
                  TotalWritten = word_of_nat (decimal wtext),
                  TotalRead = word_of_nat (decimal rtext),
                  BytesPerSec = nearest_float64 (decimal (ip @ fp)) (10 ^ length fp),
                  TotalSize = word_of_nat (decimal ztext)\<rparr>"
    using assms(3)
  proof
    assume "ls = pre @ tline # mid @ sline # post"
    then show ?thesis
      by (simp add: run_append skip tr sz Stats_zero_def)
  next
    assume "ls = pre @ sline # mid @ tline # post"
    then show ?thesis
      by (simp add: run_append skip tr sz Stats_zero_def)
  qed
  then show ?thesis
    using tokens_clean [OF assms(1,2)] by (simp add: Parse_run [OF assms(1)] after_loop_clean)
qed


text \<open>
  The amended C8 on the two lines of the specification, in both orders, among other
  lines: the captures read 1590, 18, 3216.00 and 1188046 in base 10.
\<close>

theorem Parse_both_lines_witness:
  "decimal ''1590'' = 1590 \<and> decimal ''18'' = 18 \<and> decimal ''1188046'' = 1188046 \<and>
   nearest_float64 (decimal ''321600'') (10 ^ 2) = 3216 \<and>
   Parse (''receiving file list\<newline>sent 1,590 bytes  received 18 bytes  3,216.00 bytes/sec\<newline>total size is 1,188,046  speedup is 738.83\<newline>'', EOF) =
     Return (Some \<lparr>Found = True, TotalWritten = 1590, TotalRead = 18, BytesPerSec = 3216,
                   TotalSize = 1188046\<rparr>, None) \<and>
   Parse (''total size is 1,188,046  speedup is 738.83\<newline>\<newline>sent 1,590 bytes  received 18 bytes  3,216.00 bytes/sec\<newline>done'', EOF) =
     Return (Some \<lparr>Found = True, TotalWritten = 1590, TotalRead = 18, BytesPerSec = 3216,
                   TotalSize = 1188046\<rparr>, None)"
proof -
  let ?tl = "''sent 1,590 bytes  received 18 bytes  3,216.00 bytes/sec''"
  let ?sl = "''total size is 1,188,046  speedup is 738.83''"
  let ?end = "\<lparr>src = [], src_err = EOF, err = Some EOF\<rparr>"
  have t1: "tokens (NewScanner (''receiving file list\<newline>sent 1,590 bytes  received 18 bytes  3,216.00 bytes/sec\<newline>total size is 1,188,046  speedup is 738.83\<newline>'', EOF)) =
     ([''receiving file list'', ?tl, ?sl], ?end)"
    by (simp add: tokens.simps Scan_def NewScanner_def dropCR_def MaxScanTokenSize_def)
  have t2: "tokens (NewScanner (''total size is 1,188,046  speedup is 738.83\<newline>\<newline>sent 1,590 bytes  received 18 bytes  3,216.00 bytes/sec\<newline>done'', EOF)) =
     ([?sl, [], ?tl, ''done''], ?end)"
    by (simp add: tokens.simps Scan_def NewScanner_def dropCR_def MaxScanTokenSize_def)
  have er: "err ?end \<noteq> Some ErrTooLong"
    by simp
  have o1: "[''receiving file list'', ?tl, ?sl] = [''receiving file list''] @ ?tl # [] @ ?sl # [] \<or>
            [''receiving file list'', ?tl, ?sl] = [''receiving file list''] @ ?sl # [] @ ?tl # []"
    by simp
  have o2: "[?sl, [], ?tl, ''done''] = [] @ ?tl # [[]] @ ?sl # [''done''] \<or>
            [?sl, [], ?tl, ''done''] = [] @ ?sl # [[]] @ ?tl # [''done'']"
    by simp
  have u1: "\<forall>l \<in> set ([''receiving file list''] @ [] @ []).
              \<not> HasPrefix l ''sent '' \<and> \<not> HasPrefix l ''total size is ''"
    by (simp add: HasPrefix_def)
  have u2: "\<forall>l \<in> set ([] @ [[]] @ [''done'']).
              \<not> HasPrefix l ''sent '' \<and> \<not> HasPrefix l ''total size is ''"
    by (simp add: HasPrefix_def)
  have tm: "FindStringSubmatch statsTransferRe ?tl = [?tl, ''1,590'', ''18'', ''3,216.00'']"
    by (simp add: line_defs)
  have sm: "FindStringSubmatch statsSizeRe ?sl = [?sl, ''1,188,046'', ''738.83'']"
    by (simp add: line_defs)
  have w: "''1590'' = ReplaceAll ''1,590'' (CHR '','') []"
    and r: "''18'' = ReplaceAll ''18'' (CHR '','') []"
    and z: "''1188046'' = ReplaceAll ''1,188,046'' (CHR '','') []"
    by (simp_all add: ReplaceAll_def)
  have ip: "''3216'' = takeWhile (\<lambda>c. c \<noteq> CHR ''.'') (ReplaceAll ''3,216.00'' (CHR '','') [])"
    and fp: "''00'' = drop (Suc (length ''3216'')) (ReplaceAll ''3,216.00'' (CHR '','') [])"
    by (simp_all add: ReplaceAll_def)
  have dw: "decimal ''1590'' = 1590" and dr: "decimal ''18'' = 18"
    and dz: "decimal ''1188046'' = 1188046" and db: "decimal ''321600'' = 321600"
    by (simp_all add: decimal_def digit_val_def)
  have nf: "nearest_float64 321600 100 = 3216"
    by (simp add: conv_defs)
  have p1: "Parse (''receiving file list\<newline>sent 1,590 bytes  received 18 bytes  3,216.00 bytes/sec\<newline>total size is 1,188,046  speedup is 738.83\<newline>'', EOF) =
     Return (Some \<lparr>Found = True, TotalWritten = 1590, TotalRead = 18, BytesPerSec = 3216,
                   TotalSize = 1188046\<rparr>, None)"
    using Parse_both_lines [OF t1 er o1 u1 tm sm w _ _ _ r _ _ _ z _ _ _ ip fp]
    by (simp add: dw dr dz db nf)
  have p2: "Parse (''total size is 1,188,046  speedup is 738.83\<newline>\<newline>sent 1,590 bytes  received 18 bytes  3,216.00 bytes/sec\<newline>done'', EOF) =
     Return (Some \<lparr>Found = True, TotalWritten = 1590, TotalRead = 18, BytesPerSec = 3216,
                   TotalSize = 1188046\<rparr>, None)"
    using Parse_both_lines [OF t2 er o2 u2 tm sm w _ _ _ r _ _ _ z _ _ _ ip fp]
    by (simp add: dw dr dz db nf)
  from p1 p2 dw dr dz db nf show ?thesis
    by simp
qed


text \<open>
  C8 as stated fails twice. When one of the other lines is longer than the buffer of the
  scanner, the transfer line is processed, then the scan stops with \<open>ErrTooLong\<close> before
  the size line is read, and \<open>Parse\<close> returns that error and no record. And when an
  integer capture has a leading zero it is read in base 8 (see C3): the captures
  \<^verbatim>\<open>010\<close> and \<^verbatim>\<open>0,017\<close> are stored as 8 and 15, where their base-10 values are 10 and 17.
\<close>

theorem Parse_both_lines_counterexample:
  "\<not> HasPrefix (replicate 65536 (CHR ''a'')) ''sent '' \<and>
   \<not> HasPrefix (replicate 65536 (CHR ''a'')) ''total size is '' \<and>
   Parse (''sent 1,590 bytes  received 18 bytes  3,216.00 bytes/sec\<newline>'' @
          replicate 65536 (CHR ''a'') @
          ''\<newline>total size is 1,188,046  speedup is 738.83\<newline>'', EOF) =
     Return (None, Some ErrTooLong) \<and>
   decimal ''010'' = 10 \<and> decimal ''0017'' = 17 \<and>
   Parse (''sent 010 bytes  received 18 bytes  3,216.00 bytes/sec\<newline>total size is 0,017  speedup is 1.00'', EOF) =
     Return (Some \<lparr>Found = True, TotalWritten = 8, TotalRead = 18, BytesPerSec = 3216,
                   TotalSize = 15\<rparr>, None)"
  by (simp add: decimal_def conv_defs line_defs scan_defs IndexByte_replicate)

section \<open>The derived speed-up\<close>

text \<open>
  C2. \<open>Speedup\<close> returns the \<^verbatim>\<open>float64\<close> of an integer: the exact ratio of \<open>TotalSize\<close> to
  the sum \<open>TotalWritten + TotalRead\<close> (taken in \<^verbatim>\<open>int64\<close>), truncated towards zero and
  written as an \<^verbatim>\<open>int64\<close>. It does so for every record on which it returns, that is for
  every record whose sum is not zero; on the others it panics. (By
  \<open>float64_of_int64_exact\<close> the conversion changes no quotient below \<open>2 ^ 53\<close>.) For
  \<open>TotalSize = 1188046\<close>, \<open>TotalWritten = 1590\<close> and \<open>TotalRead = 18\<close> it returns 738, which
  is not the ratio.
\<close>

theorem Speedup_truncates:
  "Speedup p =
     (if TotalWritten p + TotalRead p = 0 then Panic DivideByZero
      else Return (float64_of_int64 (word_of_int
        (let x = rat_of_int (sint (TotalSize p)) / rat_of_int (sint (TotalWritten p + TotalRead p))
         in if 0 \<le> x then \<lfloor>x\<rfloor> else \<lceil>x\<rceil>)))) \<and>
   Speedup \<lparr>Found = True, TotalWritten = 1590, TotalRead = 18, BytesPerSec = 3216,
            TotalSize = 1188046\<rparr> = Return 738 \<and>
   (738 :: rat) \<noteq> 1188046 / (1590 + 18)"
proof -
  have "Speedup p =
     (if TotalWritten p + TotalRead p = 0 then Panic DivideByZero
      else Return (float64_of_int64 (word_of_int
        (let x = rat_of_int (sint (TotalSize p)) / rat_of_int (sint (TotalWritten p + TotalRead p))
         in if 0 \<le> x then \<lfloor>x\<rfloor> else \<lceil>x\<rceil>))))"
  proof (cases "TotalWritten p + TotalRead p = 0")
    case True
    then show ?thesis
      by (simp add: Speedup_def int64_quo_def)
  next
    case False
    then have "sint (TotalWritten p + TotalRead p) \<noteq> 0"
      by (simp add: signed_eq_0_iff)
    from sdiv_truncates [OF this] False show ?thesis
      by (simp add: Speedup_def int64_quo_def Let_def)
  qed
  moreover
  have "Speedup \<lparr>Found = True, TotalWritten = 1590, TotalRead = 18, BytesPerSec = 3216,
             TotalSize = 1188046\<rparr> = Return 738"
    by (simp add: Speedup_def int64_quo_def float64_of_int64_def signed_divide_int_def conv_defs)
  moreover have "(738 :: rat) \<noteq> 1188046 / (1590 + 18)"
    by simp
  ultimately show ?thesis
    by simp
qed

text \<open>
  C2 on the record of the specification, from the general statement: the sum is 1608 and
  the ratio truncates to 738.
\<close>

theorem Speedup_truncates_witness:
  "(1590 :: int64) + 18 \<noteq> 0 \<and>
   \<lfloor>1188046 / 1608 :: rat\<rfloor> = 738 \<and>
   Speedup \<lparr>Found = True, TotalWritten = 1590, TotalRead = 18, BytesPerSec = 3216,
            TotalSize = 1188046\<rparr> = Return (float64_of_int64 738)"
proof -
  have fl: "\<lfloor>1188046 / 1608 :: rat\<rfloor> = 738"
    by (simp add: floor_eq_iff)
  from Speedup_truncates [of "\<lparr>Found = True, TotalWritten = 1590, TotalRead = 18,
      BytesPerSec = 3216, TotalSize = 1188046\<rparr>"] fl
  show ?thesis
    by simp
qed

text \<open>
  C9. \<open>Speedup\<close> panics with a division by zero exactly on the records whose
  \<open>TotalWritten + TotalRead\<close> is zero, and returns a value exactly on the others. The record
  that \<open>Parse\<close> returns for the empty input is the zero record, on which \<open>Speedup\<close> panics.
\<close>

theorem Speedup_divides_by_zero:
  "(Speedup p = Panic DivideByZero) = (TotalWritten p + TotalRead p = 0) \<and>
   (\<exists>v. Speedup p = Return v) = (TotalWritten p + TotalRead p \<noteq> 0) \<and>
   Parse ([], EOF) = Return (Some Stats_zero, None) \<and>
   Speedup Stats_zero = Panic DivideByZero"
  by (simp add: Speedup_def int64_quo_def scan_defs)

end
